theory Spec2Isabelle
  imports Main
begin

section \<open>Values, exceptions and dictionaries\<close>

text \<open>
  The client of \<^verbatim>\<open>gaiaclient.py\<close> handles decoded JSON: application names, aliases,
  states and the \<^verbatim>\<open>value\<close> of a feed message are JSON values, and the code compares
  them with Python's \<^verbatim>\<open>==\<close> and \<^verbatim>\<open>in\<close>. The interface declares them as strings; beside
  strings the model has \<^verbatim>\<open>None\<close> (a null alias) and lists (the handler of application
  messages compares a list of states with the message's value). On these values
  Python's \<^verbatim>\<open>==\<close> is structural equality, so HOL's \<open>=\<close> stands for it and
  \<open>x \<in> set xs\<close> for \<^verbatim>\<open>x in xs\<close>. Numbers, booleans and nested objects are left out.
\<close>

datatype pyval = PNone | PStr string | PList "pyval list"

text \<open>Lists are not hashable: using one as a dictionary key raises \<^verbatim>\<open>TypeError\<close>.\<close>

fun hashable :: "pyval \<Rightarrow> bool" where
  "hashable (PList xs) = False"
| "hashable v = True"

text \<open>Truth value of \<^verbatim>\<open>if v:\<close>.\<close>

fun truthy :: "pyval \<Rightarrow> bool" where
  "truthy PNone = False"
| "truthy (PStr s) = (s \<noteq> [])"
| "truthy (PList xs) = (xs \<noteq> [])"

text \<open>
  \<^verbatim>\<open>template.format(args)\<close>, kept as the template and its arguments in order (the text
  that \<^verbatim>\<open>str.format\<close> renders is Python's, not the client's).
\<close>

datatype fmt = Format string "pyval list"

record response =
  status_code :: nat
  content :: string

datatype exn =
    KeyError
  | TypeError
  | ValueError
  | UnboundLocalError
  | RequestException
  | HTTPError response
  | TimeoutError fmt
  | ApplicationError fmt

text \<open>\<^verbatim>\<open>d[k]\<close> on a dictionary decoded from JSON (its keys are strings).\<close>

definition getitem :: "('k \<rightharpoonup> 'v) \<Rightarrow> 'k \<Rightarrow> exn + 'v" where
  "getitem d k = (case d k of None \<Rightarrow> Inl KeyError | Some v \<Rightarrow> Inr v)"

text \<open>
  \<^verbatim>\<open>d[k]\<close>, \<^verbatim>\<open>k in d\<close> and \<^verbatim>\<open>d[k] = v\<close> on a dictionary whose keys are values: the key is
  hashed first.
\<close>

definition dict_getitem :: "(pyval \<rightharpoonup> 'v) \<Rightarrow> pyval \<Rightarrow> exn + 'v" where
  "dict_getitem d k = (if hashable k then getitem d k else Inl TypeError)"

definition dict_contains :: "(pyval \<rightharpoonup> 'v) \<Rightarrow> pyval \<Rightarrow> exn + bool" where
  "dict_contains d k = (if hashable k then Inr (d k \<noteq> None) else Inl TypeError)"

definition dict_setitem :: "(pyval \<rightharpoonup> 'v) \<Rightarrow> pyval \<Rightarrow> 'v \<Rightarrow> exn + (pyval \<rightharpoonup> 'v)" where
  "dict_setitem d k v = (if hashable k then Inr (d(k \<mapsto> v)) else Inl TypeError)"

section \<open>Documents of the REST interface\<close>

text \<open>
  An action of a detail document: \<^verbatim>\<open>name\<close>, \<^verbatim>\<open>method\<close>, \<^verbatim>\<open>href\<close>, \<^verbatim>\<open>type\<close> and
  \<^verbatim>\<open>fields\<close>; a field has a \<^verbatim>\<open>name\<close> and may carry a \<^verbatim>\<open>value\<close>.
\<close>

record field =
  field_name :: string
  field_value :: "pyval option"

record action =
  action_name :: string
  action_method :: string
  action_href :: string
  action_type :: string
  action_fields :: "field list"

text \<open>A detail document: \<^verbatim>\<open>actions\<close> and, optionally, \<^verbatim>\<open>blocked_actions\<close>.\<close>

record details =
  details_actions :: "action list"
  details_blocked_actions :: "action list option"

text \<open>An entity of \<^verbatim>\<open>/api/applications\<close>: its \<^verbatim>\<open>properties\<close> dictionary and its \<^verbatim>\<open>href\<close>.\<close>

record entity =
  entity_properties :: "string \<rightharpoonup> pyval"
  entity_href :: string

text \<open>
  The closures \<^verbatim>\<open>post_func\<close> and \<^verbatim>\<open>get_func\<close> that \<^verbatim>\<open>_get_fields\<close> returns, as data: each
  captures the action it was made for.
\<close>

datatype callable = Post_func action | Get_func action

text \<open>An entry of \<^verbatim>\<open>self._applications\<close>.\<close>

record application =
  actions :: "string \<rightharpoonup> callable"
  properties :: "string \<rightharpoonup> pyval"

section \<open>The client's state\<close>

text \<open>
  An entry of \<^verbatim>\<open>self.app_wait_list\<close>. \<^verbatim>\<open>wait_event\<close> and \<^verbatim>\<open>resolved_state\<close> are references
  to a \<^verbatim>\<open>threading.Event\<close> and a \<^verbatim>\<open>queue.Queue\<close> shared with the caller that registered
  the entry, so they are addresses into the stores \<open>events\<close> and \<open>queues\<close> of the client.
  Neither class defines \<^verbatim>\<open>__eq__\<close>: two entries are \<^verbatim>\<open>==\<close> exactly when their names and
  state lists are equal and they hold the same two objects, which is equality of records.
\<close>

record wait_entry =
  name :: pyval
  state :: "pyval list"
  wait_event :: nat
  resolved_state :: nat

record client =
  applications :: "pyval \<rightharpoonup> application"
  app_wait_list :: "wait_entry list"
  events :: "bool list"
  queues :: "pyval list list"
  wait_closing_event :: bool
  wait_ready_event :: bool
  wait_not_ready_event :: bool

text \<open>\<^verbatim>\<open>threading.Event()\<close> and \<^verbatim>\<open>queue.Queue()\<close>: a new object at the next free address.\<close>

definition new_event :: "client \<Rightarrow> nat \<times> client" where
  "new_event c = (length (events c), c\<lparr>events := events c @ [False]\<rparr>)"

definition new_queue :: "client \<Rightarrow> nat \<times> client" where
  "new_queue c = (length (queues c), c\<lparr>queues := queues c @ [[]]\<rparr>)"

definition event_set :: "nat \<Rightarrow> client \<Rightarrow> client" where
  "event_set a c = c\<lparr>events := (events c)[a := True]\<rparr>"

definition queue_put :: "nat \<Rightarrow> pyval \<Rightarrow> client \<Rightarrow> client" where
  "queue_put q v c = c\<lparr>queues := (queues c)[q := queues c ! q @ [v]]\<rparr>"

section \<open>The application wait engine\<close>

text \<open>
  \<^verbatim>\<open>app_wait_event(name, state, stop_wait_on_error)\<close>. The result is the pair
  \<^verbatim>\<open>(wait_event, resolved_state)\<close> and the client after the call; a \<^verbatim>\<open>KeyError\<close> or
  \<^verbatim>\<open>TypeError\<close> of the lookup leaves the client as it was (the two new objects are
  unreachable).
\<close>

definition app_wait_event ::
  "client \<Rightarrow> pyval \<Rightarrow> pyval \<Rightarrow> bool \<Rightarrow> exn + ((nat \<times> nat) \<times> client)" where
  "app_wait_event c nm st stop_wait_on_error =
     (let (wait_ev, c1) = new_event c;
          (resolved, c2) = new_queue c1;
          states = [st] @ (if stop_wait_on_error
                           then [PStr ''error'', PStr ''Error'', PStr ''ErrorState'']
                           else [])
      in case dict_getitem (applications c2) nm of
           Inl e \<Rightarrow> Inl e
         | Inr app \<Rightarrow>
            (case getitem (properties app) ''state'' of
               Inl e \<Rightarrow> Inl e
             | Inr current_state \<Rightarrow>
                 if current_state \<in> set states
                 then Inr ((wait_ev, resolved),
                           event_set wait_ev (queue_put resolved current_state c2))
                 else Inr ((wait_ev, resolved),
                           c2\<lparr>app_wait_list := app_wait_list c2 @
                                [\<lparr>name = nm, state = states,
                                  wait_event = wait_ev, resolved_state = resolved\<rparr>]\<rparr>)))"

text \<open>
  The first loop of \<^verbatim>\<open>on_app_message\<close>, over \<^verbatim>\<open>self.app_wait_list\<close>: the condition of
  line 80 compares the entry's name with \<^verbatim>\<open>message['name']\<close> and the entry's list of
  states with \<^verbatim>\<open>message['value']\<close>, both with \<^verbatim>\<open>==\<close>. An exception leaves the loop with
  the client as changed so far.
\<close>

fun resolve_matching ::
  "(string \<rightharpoonup> pyval) \<Rightarrow> wait_entry list \<Rightarrow> client \<Rightarrow> wait_entry list
     \<Rightarrow> client \<times> (exn + wait_entry list)" where
  "resolve_matching message [] c remove_these = (c, Inr remove_these)"
| "resolve_matching message (app # rest) c remove_these =
     (case getitem message ''name'' of
        Inl e \<Rightarrow> (c, Inl e)
      | Inr n \<Rightarrow>
          if name app = n
          then (case getitem message ''value'' of
                  Inl e \<Rightarrow> (c, Inl e)
                | Inr v \<Rightarrow>
                    if PList (state app) = v
                    then resolve_matching message rest
                           (event_set (wait_event app) (queue_put (resolved_state app) v c))
                           (remove_these @ [app])
                    else resolve_matching message rest c remove_these)
          else resolve_matching message rest c remove_these)"

text \<open>
  The second loop: \<^verbatim>\<open>self.app_wait_list.remove(item)\<close> deletes the first entry equal to
  \<^verbatim>\<open>item\<close> and raises \<^verbatim>\<open>ValueError\<close> when there is none.
\<close>

fun remove_items :: "wait_entry list \<Rightarrow> client \<Rightarrow> client \<times> (exn + unit)" where
  "remove_items [] c = (c, Inr ())"
| "remove_items (item # items) c =
     (if item \<in> set (app_wait_list c)
      then remove_items items (c\<lparr>app_wait_list := remove1 item (app_wait_list c)\<rparr>)
      else (c, Inl ValueError))"

text \<open>
  \<^verbatim>\<open>on_app_message(ws, message)\<close>. The argument is the decoded message, \<open>None\<close> when
  the text is not a JSON object (\<^verbatim>\<open>json.loads\<close> raises, or subscripting what it returns
  does). Every exception is caught and logged inside the handler, so the handler
  always returns, with the client as it is at that point.
\<close>

definition on_app_message :: "client \<Rightarrow> (string \<rightharpoonup> pyval) option \<Rightarrow> client" where
  "on_app_message c message =
     (case message of
        None \<Rightarrow> c
      | Some m \<Rightarrow>
          (case resolve_matching m (app_wait_list c) c [] of
             (c1, Inl e) \<Rightarrow> c1
           | (c1, Inr remove_these) \<Rightarrow> fst (remove_items remove_these c1)))"

text \<open>The two message templates of \<^verbatim>\<open>wait_app_state\<close>.\<close>

definition timeout_template :: string where
  "timeout_template =
     ''Timeout while waiting for the state '{}' for the application '{}'' @ [CHR 0x27]"

definition application_error_template :: string where
  "application_error_template =
     ''The application '{}' waiting for the state '{}' went to state '{}'' @ [CHR 0x27]"

text \<open>
  \<^verbatim>\<open>wait_app_state(name, state, timeout)\<close>. While the caller blocks in
  \<^verbatim>\<open>wait_event.wait(timeout)\<close> the listener thread handles the messages \<open>feed\<close> that
  arrive before the wait ends; \<^verbatim>\<open>wait\<close> returns whether the event is set by then.
  \<^verbatim>\<open>resolved_state.get()\<close> takes the first element of the queue.
\<close>

definition wait_app_state ::
  "client \<Rightarrow> pyval \<Rightarrow> pyval \<Rightarrow> (string \<rightharpoonup> pyval) option list \<Rightarrow> client \<times> (exn + unit)" where
  "wait_app_state c nm st feed =
     (case app_wait_event c nm st True of
        Inl e \<Rightarrow> (c, Inl e)
      | Inr ((wait_ev, resolved), c1) \<Rightarrow>
          (let c2 = foldl on_app_message c1 feed in
           if \<not> events c2 ! wait_ev
           then (c2, Inl (TimeoutError (Format timeout_template [st, nm])))
           else (case queues c2 ! resolved of
                   [] \<Rightarrow> (c2, Inr ())
                 | current_state # rest \<Rightarrow>
                     (c2\<lparr>queues := (queues c2)[resolved := rest]\<rparr>,
                      if current_state \<noteq> st
                      then Inl (ApplicationError (Format application_error_template
                                                       [nm, st, current_state]))
                      else Inr ()))))"

section \<open>The machine signal tracker\<close>

text \<open>
  \<^verbatim>\<open>on_status_message(ws, message)\<close>. \<^verbatim>\<open>machine_state_callback\<close> is the constructor's
  optional argument; what it does is the caller's business, and the model keeps of it
  whether the call returns (\<open>True\<close>) or raises. The whole body is inside
  \<^verbatim>\<open>try ... except Exception\<close>: after an exception the events are as they were.
\<close>

definition on_status_message ::
  "((string \<rightharpoonup> pyval) \<Rightarrow> bool) option \<Rightarrow> client \<Rightarrow> (string \<rightharpoonup> pyval) option \<Rightarrow> client" where
  "on_status_message machine_state_callback c message =
     (case message of
        None \<Rightarrow> c
      | Some m \<Rightarrow>
          if (case machine_state_callback of None \<Rightarrow> False | Some f \<Rightarrow> \<not> f m) then c
          else (case getitem m ''state'' of
                  Inl e \<Rightarrow> c
                | Inr s \<Rightarrow>
                    (let c1 = (if s = PStr ''Ready''
                               then c\<lparr>wait_ready_event := True, wait_not_ready_event := False\<rparr>
                               else c\<lparr>wait_ready_event := False, wait_not_ready_event := True\<rparr>)
                     in if s = PStr ''Closing'' \<or> s = PStr ''Ready''
                        then c1\<lparr>wait_closing_event := True\<rparr>
                        else c1\<lparr>wait_closing_event := False\<rparr>)))"

section \<open>Actions\<close>

text \<open>
  A request handed to \<^verbatim>\<open>self.requests\<close>. The remote machine is a function from the
  request to its response, or to the exception that \<^verbatim>\<open>requests\<close> raises when there is
  none; the requests issued are appended to a log.
\<close>

record request =
  req_method :: string
  req_url :: string
  req_headers :: "(string \<times> string) list"
  req_json :: "(string \<rightharpoonup> pyval) option"

definition send ::
  "(request \<Rightarrow> exn + response) \<Rightarrow> request \<Rightarrow> request list \<Rightarrow> request list \<times> (exn + response)" where
  "send server req sent = (sent @ [req], server req)"

text \<open>\<^verbatim>\<open>Response.raise_for_status()\<close> of \<^verbatim>\<open>requests\<close>: an error for a 4xx or 5xx status.\<close>

definition raise_for_status :: "response \<Rightarrow> exn + unit" where
  "raise_for_status r =
     (if 400 \<le> status_code r \<and> status_code r < 600 then Inl (HTTPError r) else Inr ())"

text \<open>
  \<^verbatim>\<open>post_func(**kwargs)\<close> of the action \<open>a\<close>: the first loop collects the fields that
  have a \<^verbatim>\<open>value\<close>, \<^verbatim>\<open>fields.update(kwargs)\<close> then writes the caller's keywords over
  them. The function returns nothing.
\<close>

definition static_fields :: "field list \<Rightarrow> (string \<rightharpoonup> pyval)" where
  "static_fields fs =
     foldl (\<lambda>fields f. case field_value f of
                          Some v \<Rightarrow> fields(field_name f \<mapsto> v)
                        | None \<Rightarrow> fields)
           Map.empty fs"

definition post_func ::
  "(request \<Rightarrow> exn + response) \<Rightarrow> action \<Rightarrow> (string \<rightharpoonup> pyval) \<Rightarrow> request list
     \<Rightarrow> request list \<times> (exn + unit)" where
  "post_func server a kwargs sent =
     (let fields = static_fields (action_fields a) ++ kwargs;
          (sent1, r) = send server
             \<lparr>req_method = ''POST'', req_url = action_href a,
              req_headers = [(''Content-type'', action_type a)], req_json = Some fields\<rparr> sent
      in case r of
           Inl e \<Rightarrow> (sent1, Inl e)
         | Inr resp \<Rightarrow> (sent1, raise_for_status resp))"


text \<open>\<^verbatim>\<open>_get_fields(action)\<close>: the method \<^verbatim>\<open>'POST'\<close> gives \<^verbatim>\<open>post_func\<close>, any other \<^verbatim>\<open>get_func\<close>.\<close>

definition get_fields :: "action \<Rightarrow> callable" where
  "get_fields a = (if action_method a = ''POST'' then Post_func a else Get_func a)"

section \<open>The hypermedia resolver\<close>

text \<open>
  \<^verbatim>\<open>_get_actions(entity)\<close>. \<open>fetch url\<close> is \<^verbatim>\<open>self.requests.get(url).json()\<close>, \<open>None\<close> when
  the request or the decoding raises. The handler of that exception prints the entity
  and falls through, so the local name \<^verbatim>\<open>entity_details\<close> is unbound when the loop
  after the \<^verbatim>\<open>try\<close> statement reads it.
\<close>

definition add_actions :: "(string \<rightharpoonup> callable) \<Rightarrow> action list \<Rightarrow> (string \<rightharpoonup> callable)" where
  "add_actions acts as = foldl (\<lambda>m a. m(action_name a \<mapsto> get_fields a)) acts as"

definition get_actions :: "(string \<Rightarrow> details option) \<Rightarrow> entity \<Rightarrow> exn + (string \<rightharpoonup> callable)" where
  "get_actions fetch ent =
     (let entity_details = fetch (entity_href ent) in
      case entity_details of
        None \<Rightarrow> Inl UnboundLocalError
      | Some d \<Rightarrow>
          (let acts = add_actions Map.empty (details_actions d) in
           case details_blocked_actions d of
             None \<Rightarrow> Inr acts
           | Some blocked \<Rightarrow> Inr (add_actions acts blocked)))"

text \<open>
  The body of the loop over the entities in \<^verbatim>\<open>Client.__init__\<close> (lines 112 to 122), on
  the registry \<^verbatim>\<open>self._applications\<close>. In an assignment Python evaluates the right-hand
  side, here the call of \<^verbatim>\<open>_get_actions\<close>, before it hashes the key.
\<close>

definition register_entity ::
  "(string \<Rightarrow> details option) \<Rightarrow> entity \<Rightarrow> (pyval \<rightharpoonup> application)
     \<Rightarrow> exn + (pyval \<rightharpoonup> application)" where
  "register_entity fetch ent apps =
     (case getitem (entity_properties ent) ''name'' of
        Inl e \<Rightarrow> Inl e
      | Inr nm \<Rightarrow>
         (case dict_contains apps nm of
            Inl e \<Rightarrow> Inl e
          | Inr True \<Rightarrow>
             (case getitem (entity_properties ent) ''alias'' of
                Inl e \<Rightarrow> Inl e
              | Inr alias \<Rightarrow>
                  if truthy alias
                  then (case get_actions fetch ent of
                          Inl e \<Rightarrow> Inl e
                        | Inr acts \<Rightarrow>
                            dict_setitem apps alias
                              \<lparr>actions = acts, properties = entity_properties ent\<rparr>)
                  else Inr apps)
          | Inr False \<Rightarrow>
             (case get_actions fetch ent of
                Inl e \<Rightarrow> Inl e
              | Inr acts \<Rightarrow>
                  dict_setitem apps nm
                    \<lparr>actions = acts, properties = entity_properties ent\<rparr>)))"

text \<open>The loop itself: an exception of one entity ends the constructor.\<close>

fun init_applications ::
  "(string \<Rightarrow> details option) \<Rightarrow> entity list \<Rightarrow> (pyval \<rightharpoonup> application)
     \<Rightarrow> exn + (pyval \<rightharpoonup> application)" where
  "init_applications fetch [] apps = Inr apps"
| "init_applications fetch (ent # entities) apps =
     (case register_entity fetch ent apps of
        Inl e \<Rightarrow> Inl e
      | Inr apps1 \<Rightarrow> init_applications fetch entities apps1)"

text \<open>
  The client as the constructor leaves it: the registry built, no pending wait, no
  event set.
\<close>

definition new_client :: "(pyval \<rightharpoonup> application) \<Rightarrow> client" where
  "new_client apps =
     \<lparr>applications = apps, app_wait_list = [], events = [], queues = [],
      wait_closing_event = False, wait_ready_event = False, wait_not_ready_event = False\<rparr>"

section \<open>Runs of the client\<close>

text \<open>
  What happens to a constructed client: a caller registers a wait with
  \<^verbatim>\<open>app_wait_event\<close>, a caller runs \<^verbatim>\<open>wait_app_state\<close> (which takes the resolved state
  out of the queue it created), the application listener handles a message, the
  machine-state listener handles a message. Each handler runs under the lock or
  touches no shared list, so a run is a sequence of such steps.
\<close>

inductive step :: "client \<Rightarrow> client \<Rightarrow> bool" where
  register: "app_wait_event c nm st stop_wait_on_error = Inr (h, c') \<Longrightarrow> step c c'"
| wait: "wait_app_state c nm st feed = (c', r) \<Longrightarrow> step c c'"
| app_message: "step c (on_app_message c message)"
| status_message: "step c (on_status_message machine_state_callback c message)"

inductive reachable :: "client \<Rightarrow> bool" where
  constructed: "reachable (new_client apps)"
| after_step: "reachable c \<Longrightarrow> step c c' \<Longrightarrow> reachable c'"

text \<open>
  Events and queues are created in pairs, at the same address of their stores, and a
  pending entry holds such a pair. The cell \<open>i\<close> is in order when its event, if set, has
  a non-empty queue.
\<close>

definition entries_ok :: "wait_entry list \<Rightarrow> client \<Rightarrow> bool" where
  "entries_ok ws c \<longleftrightarrow>
     (\<forall>w\<in>set ws. resolved_state w = wait_event w \<and> wait_event w < length (events c))"

definition pairs_ok :: "client \<Rightarrow> bool" where
  "pairs_ok c \<longleftrightarrow> length (queues c) = length (events c) \<and> entries_ok (app_wait_list c) c"

definition cell_ok :: "nat \<Rightarrow> client \<Rightarrow> bool" where
  "cell_ok i c \<longleftrightarrow> i < length (events c) \<and> (events c ! i \<longrightarrow> queues c ! i \<noteq> [])"

section \<open>Example inputs\<close>

text \<open>Three applications: \<^verbatim>\<open>app1\<close> is stopped, \<^verbatim>\<open>app2\<close> in error, \<^verbatim>\<open>app3\<close> running.\<close>

definition ex_apps :: "pyval \<rightharpoonup> application" where
  "ex_apps =
     [PStr ''app1'' \<mapsto> \<lparr>actions = Map.empty, properties = [''state'' \<mapsto> PStr ''Stopped'']\<rparr>,
      PStr ''app2'' \<mapsto> \<lparr>actions = Map.empty, properties = [''state'' \<mapsto> PStr ''Error'']\<rparr>,
      PStr ''app3'' \<mapsto> \<lparr>actions = Map.empty, properties = [''state'' \<mapsto> PStr ''Running'']\<rparr>]"

text \<open>The feed message \<^verbatim>\<open>{"name": "app1", "value": "Running"}\<close>.\<close>

definition running_message :: "string \<rightharpoonup> pyval" where
  "running_message = [''name'' \<mapsto> PStr ''app1'', ''value'' \<mapsto> PStr ''Running'']"

text \<open>A message whose \<^verbatim>\<open>value\<close> is the whole list of states of a waiter.\<close>

definition list_message :: "string \<rightharpoonup> pyval" where
  "list_message =
     [''name'' \<mapsto> PStr ''app1'',
      ''value'' \<mapsto> PList [PStr ''Running'', PStr ''error'', PStr ''Error'', PStr ''ErrorState'']]"

text \<open>
  The client after one and after two calls
  \<^verbatim>\<open>app_wait_event('app1', 'Running', True)\<close>.
\<close>

definition one_waiter :: client where
  "one_waiter = (new_client ex_apps)
     \<lparr>app_wait_list :=
        [\<lparr>name = PStr ''app1'',
          state = [PStr ''Running'', PStr ''error'', PStr ''Error'', PStr ''ErrorState''],
          wait_event = 0, resolved_state = 0\<rparr>],
      events := [False], queues := [[]]\<rparr>"

definition two_waiters :: client where
  "two_waiters = (new_client ex_apps)
     \<lparr>app_wait_list :=
        [\<lparr>name = PStr ''app1'',
          state = [PStr ''Running'', PStr ''error'', PStr ''Error'', PStr ''ErrorState''],
          wait_event = 0, resolved_state = 0\<rparr>,
         \<lparr>name = PStr ''app1'',
          state = [PStr ''Running'', PStr ''error'', PStr ''Error'', PStr ''ErrorState''],
          wait_event = 1, resolved_state = 1\<rparr>],
      events := [False, False], queues := [[], []]\<rparr>"

text \<open>
  The client after \<^verbatim>\<open>app_wait_event('app1', 'Running')\<close> and
  \<^verbatim>\<open>app_wait_event('app3', 'Stopped')\<close>.
\<close>

definition frame_waiters :: client where
  "frame_waiters = (new_client ex_apps)
     \<lparr>app_wait_list :=
        [\<lparr>name = PStr ''app1'', state = [PStr ''Running''],
          wait_event = 0, resolved_state = 0\<rparr>,
         \<lparr>name = PStr ''app3'', state = [PStr ''Stopped''],
          wait_event = 1, resolved_state = 1\<rparr>],
      events := [False, False], queues := [[], []]\<rparr>"

text \<open>Detail documents behind three URLs, one action each; any other URL fails.\<close>

definition act :: "string \<Rightarrow> action" where
  "act n = \<lparr>action_name = n, action_method = ''GET'', action_href = ''http://gaia/'' @ n,
            action_type = ''application/json'', action_fields = []\<rparr>"

definition ex_fetch :: "string \<Rightarrow> details option" where
  "ex_fetch url =
     (if url = ''h1'' then Some \<lparr>details_actions = [act ''x''], details_blocked_actions = None\<rparr>
      else if url = ''h2'' then Some \<lparr>details_actions = [act ''y''], details_blocked_actions = None\<rparr>
      else if url = ''h3'' then Some \<lparr>details_actions = [act ''z''], details_blocked_actions = None\<rparr>
      else None)"

definition ent :: "string \<Rightarrow> pyval \<Rightarrow> string \<Rightarrow> entity" where
  "ent n alias url =
     \<lparr>entity_properties = [''name'' \<mapsto> PStr n, ''alias'' \<mapsto> alias], entity_href = url\<rparr>"

text \<open>
  A POST action with the static field \<^verbatim>\<open>mode = "auto"\<close> and a field \<^verbatim>\<open>speed\<close> without
  value; a machine that answers 404 to a POST and 200 to anything else.
\<close>

definition mode_action :: action where
  "mode_action =
     \<lparr>action_name = ''set_mode'', action_method = ''POST'',
      action_href = ''http://gaia/api/mode'', action_type = ''application/json'',
      action_fields = [\<lparr>field_name = ''mode'', field_value = Some (PStr ''auto'')\<rparr>,
                       \<lparr>field_name = ''speed'', field_value = None\<rparr>]\<rparr>"

definition ex_server :: "request \<Rightarrow> exn + response" where
  "ex_server req =
     (if req_method req = ''POST'' then Inr \<lparr>status_code = 404, content = ''not found''\<rparr>
      else Inr \<lparr>status_code = 200, content = ''ok''\<rparr>)"

text \<open>The registry after the entity \<^verbatim>\<open>a\<close> behind \<^verbatim>\<open>h1\<close> has been registered.\<close>

definition canonical_only :: "pyval \<rightharpoonup> application" where
  "canonical_only =
     [PStr ''a'' \<mapsto> \<lparr>actions = [''x'' \<mapsto> Get_func (act ''x'')],
                     properties = entity_properties (ent ''a'' (PStr []) ''h1'')\<rparr>]"

section \<open>Auxiliary facts\<close>

lemmas heap_defs = new_event_def new_queue_def event_set_def queue_put_def

subsection \<open>Static fields\<close>

lemma static_fields_snoc:
  "static_fields (fs @ [f]) =
     (case field_value f of Some v \<Rightarrow> (static_fields fs)(field_name f \<mapsto> v)
                          | None \<Rightarrow> static_fields fs)"
  by (cases "field_value f") (simp_all add: static_fields_def)

lemma static_fields_None:
  "static_fields fs k = None \<longleftrightarrow> (\<forall>f\<in>set fs. field_name f = k \<longrightarrow> field_value f = None)"
proof (induction fs rule: rev_induct)
  case Nil
  show ?case by (simp add: static_fields_def)
next
  case (snoc f fs)
  then show ?case by (auto simp: static_fields_snoc split: option.splits)
qed

lemma static_fields_Some:
  "static_fields fs k = Some v \<Longrightarrow> \<exists>f\<in>set fs. field_name f = k \<and> field_value f = Some v"
proof (induction fs rule: rev_induct)
  case Nil
  then show ?case by (simp add: static_fields_def)
next
  case (snoc f fs)
  then show ?case by (auto simp: static_fields_snoc split: option.splits if_splits)
qed

subsection \<open>Messages whose value is a string\<close>

text \<open>
  The condition of line 80 compares a list with the message's value: a string is never
  equal to a list, so a message with a string value resolves and removes nothing.
\<close>

lemma resolve_matching_string_value:
  "message ''value'' = Some (PStr v) \<Longrightarrow>
     resolve_matching message ws c rm = (c, Inr rm) \<or>
     (\<exists>e. resolve_matching message ws c rm = (c, Inl e))"
  by (induction ws arbitrary: rm) (auto simp: getitem_def split: option.splits)

lemma on_app_message_string_value:
  assumes "message ''value'' = Some (PStr v)"
  shows "on_app_message c (Some message) = c"
  using assms resolve_matching_string_value [of message v "app_wait_list c" c "[]"]
  by (auto simp: on_app_message_def)

subsection \<open>The invariant of the stores\<close>

lemma resolve_cell:
  "a < length (events c) \<Longrightarrow> length (queues c) = length (events c) \<Longrightarrow>
     cell_ok a (event_set a (queue_put a v c))
     \<and> (cell_ok i c \<longrightarrow> cell_ok i (event_set a (queue_put a v c)))"
  by (auto simp: cell_ok_def event_set_def queue_put_def nth_list_update)

lemma event_set_put_frame:
  "length (events (event_set a (queue_put q v c))) = length (events c)"
  "length (queues (event_set a (queue_put q v c))) = length (queues c)"
  "app_wait_list (event_set a (queue_put q v c)) = app_wait_list c"
  by (simp_all add: event_set_def queue_put_def)

lemma resolve_matching_keeps:
  "entries_ok ws c \<Longrightarrow> length (queues c) = length (events c) \<Longrightarrow>
     length (events (fst (resolve_matching m ws c rm))) = length (events c)
     \<and> length (queues (fst (resolve_matching m ws c rm))) = length (queues c)
     \<and> app_wait_list (fst (resolve_matching m ws c rm)) = app_wait_list c
     \<and> (cell_ok i c \<longrightarrow> cell_ok i (fst (resolve_matching m ws c rm)))"
proof (induction ws arbitrary: c rm)
  case Nil
  then show ?case by simp
next
  case (Cons w ws)
  from Cons.prems(1) have w: "resolved_state w = wait_event w" "wait_event w < length (events c)"
    and ws: "entries_ok ws c"
    by (simp_all add: entries_ok_def)
  show ?case
  proof (cases "\<exists>v. m ''name'' = Some (name w) \<and> m ''value'' = Some v \<and> PList (state w) = v")
    case True
    then obtain v where v: "m ''name'' = Some (name w)" "m ''value'' = Some v" "PList (state w) = v"
      by blast
    let ?c = "event_set (wait_event w) (queue_put (resolved_state w) v c)"
    have len: "length (queues ?c) = length (events ?c)"
      using Cons.prems(2) by (simp add: event_set_put_frame)
    have "entries_ok ws ?c" using ws by (simp add: entries_ok_def event_set_put_frame)
    from Cons.IH [OF this len, of "rm @ [w]"]
    have "length (events (fst (resolve_matching m ws ?c (rm @ [w])))) = length (events ?c)
     \<and> length (queues (fst (resolve_matching m ws ?c (rm @ [w])))) = length (queues ?c)
     \<and> app_wait_list (fst (resolve_matching m ws ?c (rm @ [w]))) = app_wait_list ?c
     \<and> (cell_ok i ?c \<longrightarrow> cell_ok i (fst (resolve_matching m ws ?c (rm @ [w]))))" .
    moreover have "cell_ok i c \<longrightarrow> cell_ok i ?c"
      using resolve_cell [OF w(2) Cons.prems(2), of v i] w(1) by simp
    ultimately show ?thesis using v by (simp add: getitem_def event_set_put_frame)
  next
    case False
    then have "resolve_matching m (w # ws) c rm = resolve_matching m ws c rm
        \<or> (\<exists>e. resolve_matching m (w # ws) c rm = (c, Inl e))"
      by (auto simp: getitem_def split: option.splits)
    then show ?thesis using Cons.IH [OF ws Cons.prems(2), of rm] by auto
  qed
qed

lemma remove_items_keeps:
  "events (fst (remove_items items c)) = events c
   \<and> queues (fst (remove_items items c)) = queues c
   \<and> set (app_wait_list (fst (remove_items items c))) \<subseteq> set (app_wait_list c)"
proof (induction items arbitrary: c)
  case Nil
  show ?case by simp
next
  case (Cons item items)
  show ?case
    using Cons.IH [of "c\<lparr>app_wait_list := remove1 item (app_wait_list c)\<rparr>"]
      set_remove1_subset [of item "app_wait_list c"]
    by auto
qed

lemma on_app_message_keeps:
  assumes "pairs_ok c"
  shows "pairs_ok (on_app_message c message)
       \<and> length (events (on_app_message c message)) = length (events c)
       \<and> (cell_ok i c \<longrightarrow> cell_ok i (on_app_message c message))"
proof (cases message)
  case None
  with assms show ?thesis by (simp add: on_app_message_def)
next
  case (Some m)
  obtain c1 r where r: "resolve_matching m (app_wait_list c) c [] = (c1, r)"
    by (cases "resolve_matching m (app_wait_list c) c []")
  from assms have "entries_ok (app_wait_list c) c" "length (queues c) = length (events c)"
    by (simp_all add: pairs_ok_def)
  from resolve_matching_keeps [OF this, of m "[]" i] r
  have c1: "length (events c1) = length (events c)" "length (queues c1) = length (queues c)"
    "app_wait_list c1 = app_wait_list c" "cell_ok i c \<longrightarrow> cell_ok i c1"
    by simp_all
  with assms have p1: "pairs_ok c1"
    by (simp add: pairs_ok_def entries_ok_def)
  show ?thesis
  proof (cases r)
    case (Inl e)
    with Some r p1 c1 show ?thesis by (simp add: on_app_message_def)
  next
    case (Inr remove_these)
    let ?c = "fst (remove_items remove_these c1)"
    have "on_app_message c message = ?c"
      using Some r Inr by (simp add: on_app_message_def)
    moreover have "pairs_ok ?c \<and> length (events ?c) = length (events c)
        \<and> (cell_ok i c \<longrightarrow> cell_ok i ?c)"
      using p1 c1 remove_items_keeps [of remove_these c1]
      by (auto simp: pairs_ok_def cell_ok_def entries_ok_def)
    ultimately show ?thesis by simp
  qed
qed

lemma listen_keeps:
  "pairs_ok c \<Longrightarrow>
     pairs_ok (foldl on_app_message c feed)
     \<and> length (events (foldl on_app_message c feed)) = length (events c)
     \<and> (cell_ok i c \<longrightarrow> cell_ok i (foldl on_app_message c feed))"
proof (induction feed arbitrary: c)
  case Nil
  then show ?case by simp
next
  case (Cons m feed)
  from on_app_message_keeps [OF Cons.prems, of m i]
  have 1: "pairs_ok (on_app_message c m)"
    "length (events (on_app_message c m)) = length (events c)"
    "cell_ok i c \<longrightarrow> cell_ok i (on_app_message c m)"
    by simp_all
  from Cons.IH [OF 1(1)] 1(2,3) show ?case by simp
qed

lemma on_status_message_frame:
  "events (on_status_message cb c message) = events c
   \<and> queues (on_status_message cb c message) = queues c
   \<and> app_wait_list (on_status_message cb c message) = app_wait_list c"
  by (simp add: on_status_message_def Let_def split: option.splits sum.splits)

lemma app_wait_event_shape:
  assumes "app_wait_event c nm st b = Inr (h, c')"
  shows "h = (length (events c), length (queues c))
       \<and> ((events c' = events c @ [True] \<and> (\<exists>v. queues c' = queues c @ [[v]])
            \<and> app_wait_list c' = app_wait_list c)
          \<or> (events c' = events c @ [False] \<and> queues c' = queues c @ [[]]
            \<and> (\<exists>states. app_wait_list c' = app_wait_list c @
                  [\<lparr>name = nm, state = states, wait_event = length (events c),
                    resolved_state = length (queues c)\<rparr>])))"
  using assms
  by (auto simp: app_wait_event_def heap_defs Let_def split: sum.splits if_splits)

lemma app_wait_event_keeps:
  assumes "pairs_ok c" and "app_wait_event c nm st b = Inr (h, c')"
  shows "pairs_ok c' \<and> length (events c') = Suc (length (events c))
       \<and> h = (length (events c), length (events c))
       \<and> cell_ok (length (events c)) c'
       \<and> (cell_ok i c \<longrightarrow> cell_ok i c')"
proof -
  from assms(1) have len: "length (queues c) = length (events c)"
    and ws: "\<forall>w\<in>set (app_wait_list c).
               resolved_state w = wait_event w \<and> wait_event w < length (events c)"
    by (simp_all add: pairs_ok_def entries_ok_def)
  from app_wait_event_shape [OF assms(2)]
  have h: "h = (length (events c), length (queues c))"
    and shape: "(events c' = events c @ [True] \<and> (\<exists>v. queues c' = queues c @ [[v]])
            \<and> app_wait_list c' = app_wait_list c)
          \<or> (events c' = events c @ [False] \<and> queues c' = queues c @ [[]]
            \<and> (\<exists>states. app_wait_list c' = app_wait_list c @
                  [\<lparr>name = nm, state = states, wait_event = length (events c),
                    resolved_state = length (queues c)\<rparr>]))"
    by simp_all
  from shape show ?thesis
  proof
    assume a: "events c' = events c @ [True] \<and> (\<exists>v. queues c' = queues c @ [[v]])
            \<and> app_wait_list c' = app_wait_list c"
    then obtain v where v: "queues c' = queues c @ [[v]]" by blast
    have "cell_ok (length (events c)) c'" "cell_ok i c \<longrightarrow> cell_ok i c'"
      using a v len by (auto simp: cell_ok_def nth_append)
    moreover have "entries_ok (app_wait_list c') c'"
      using a ws by (auto simp: entries_ok_def less_Suc_eq)
    ultimately show ?thesis using a v h len by (simp add: pairs_ok_def)
  next
    assume a: "events c' = events c @ [False] \<and> queues c' = queues c @ [[]]
            \<and> (\<exists>states. app_wait_list c' = app_wait_list c @
                  [\<lparr>name = nm, state = states, wait_event = length (events c),
                    resolved_state = length (queues c)\<rparr>])"
    have "cell_ok (length (events c)) c'" "cell_ok i c \<longrightarrow> cell_ok i c'"
      using a len by (auto simp: cell_ok_def nth_append)
    moreover have "entries_ok (app_wait_list c') c'"
      using a ws len by (auto simp: entries_ok_def less_Suc_eq)
    ultimately show ?thesis using a h len by (simp add: pairs_ok_def)
  qed
qed

lemma wait_app_state_keeps:
  assumes "pairs_ok c" and "wait_app_state c nm st feed = (c', r)"
  shows "pairs_ok c' \<and> length (events c) \<le> length (events c')
       \<and> (cell_ok i c \<longrightarrow> cell_ok i c')"
proof (cases "app_wait_event c nm st True")
  case (Inl e)
  with assms show ?thesis by (simp add: wait_app_state_def)
next
  case (Inr hc)
  obtain wait_ev resolved c1 where hc: "hc = ((wait_ev, resolved), c1)"
    by (cases hc) auto
  let ?c2 = "foldl on_app_message c1 feed"
  from app_wait_event_keeps [OF assms(1), of nm st True "(wait_ev, resolved)" c1 i] Inr hc
  have c1: "pairs_ok c1" "length (events c1) = Suc (length (events c))"
    "resolved = length (events c)" "cell_ok i c \<longrightarrow> cell_ok i c1"
    by simp_all
  from listen_keeps [OF c1(1), of feed i]
  have c2: "pairs_ok ?c2" "length (events ?c2) = length (events c1)"
    "cell_ok i c1 \<longrightarrow> cell_ok i ?c2"
    by simp_all
  have "c' = ?c2 \<or> (\<exists>rest. c' = ?c2\<lparr>queues := (queues ?c2)[resolved := rest]\<rparr>)"
    using assms(2) Inr hc
    by (auto simp: wait_app_state_def Let_def split: if_splits list.splits)
  then show ?thesis
  proof
    assume "c' = ?c2"
    with c1 c2 show ?thesis by simp
  next
    assume "\<exists>rest. c' = ?c2\<lparr>queues := (queues ?c2)[resolved := rest]\<rparr>"
    then obtain rest where c': "c' = ?c2\<lparr>queues := (queues ?c2)[resolved := rest]\<rparr>"
      by blast
    have "pairs_ok c'" using c2(1) c' by (simp add: pairs_ok_def entries_ok_def)
    moreover have "cell_ok i c \<longrightarrow> cell_ok i c'"
    proof
      assume i: "cell_ok i c"
      then have "i \<noteq> resolved" using c1(3) by (simp add: cell_ok_def)
      moreover from i c1(4) c2(3) have "cell_ok i ?c2" by simp
      ultimately show "cell_ok i c'" using c' by (simp add: cell_ok_def)
    qed
    ultimately show ?thesis using c' c1 c2 by simp
  qed
qed

lemma step_keeps:
  assumes "step c c'" and "pairs_ok c"
  shows "pairs_ok c' \<and> (cell_ok i c \<longrightarrow> cell_ok i c')"
  using assms(1)
proof (cases rule: step.cases)
  case (register nm st stop_wait_on_error h)
  then show ?thesis
    using app_wait_event_keeps [OF assms(2), of nm st stop_wait_on_error h c' i] by simp
next
  case (wait nm st feed r)
  then show ?thesis
    using wait_app_state_keeps [OF assms(2), of nm st feed c' r i] by simp
next
  case (app_message message)
  then show ?thesis using on_app_message_keeps [OF assms(2), of message i] by simp
next
  case (status_message cb message)
  then show ?thesis
    using assms(2) on_status_message_frame [of cb c message]
    by (simp add: pairs_ok_def cell_ok_def entries_ok_def)
qed

lemma reachable_pairs_ok: "reachable c \<Longrightarrow> pairs_ok c"
proof (induction rule: reachable.induct)
  case (constructed apps)
  show ?case by (simp add: pairs_ok_def entries_ok_def new_client_def)
next
  case (after_step c c')
  then show ?case using step_keeps by blast
qed

lemma steps_keep:
  "rtranclp step c c' \<Longrightarrow> pairs_ok c \<Longrightarrow> pairs_ok c' \<and> (cell_ok i c \<longrightarrow> cell_ok i c')"
proof (induction rule: rtranclp_induct)
  case base
  then show ?case by simp
next
  case (step y z)
  then show ?case using step_keeps [of y z i] by auto
qed

section \<open>The claims\<close>

subsection \<open>C1: a matching message resolves every matching waiter\<close>

text \<open>
  C1 says that an application-state message \<^verbatim>\<open>{name, value}\<close> resolves every pending
  entry whose name is the message's name and whose acceptable states contain the value:
  the value is put into its queue, its event is set and the entry leaves the list; two
  waiters for \<^verbatim>\<open>("app1", "Running")\<close> are both resolved by one message. The handler
  compares the entry's whole list of states with the value (\<^verbatim>\<open>app['state'] == message['value']\<close>),
  where registration tests membership (\<^verbatim>\<open>current_state in states\<close>). Evaluated on two
  waiters registered for \<^verbatim>\<open>("app1", "Running")\<close> and the message
  \<^verbatim>\<open>{"name": "app1", "value": "Running"}\<close>: both entries have the message's name and
  \<^verbatim>\<open>"Running"\<close> among their states, and the handler leaves the client unchanged, both
  events unset, both queues empty, both entries pending.
\<close>

theorem matching_waiters_stay_pending:
  "app_wait_event (new_client ex_apps) (PStr ''app1'') (PStr ''Running'') True
     = Inr ((0, 0), one_waiter)
   \<and> app_wait_event one_waiter (PStr ''app1'') (PStr ''Running'') True
     = Inr ((1, 1), two_waiters)
   \<and> map name (app_wait_list two_waiters) = [PStr ''app1'', PStr ''app1'']
   \<and> map (\<lambda>w. PStr ''Running'' \<in> set (state w)) (app_wait_list two_waiters) = [True, True]
   \<and> running_message ''name'' = Some (PStr ''app1'')
   \<and> running_message ''value'' = Some (PStr ''Running'')
   \<and> on_app_message two_waiters (Some running_message) = two_waiters
   \<and> events two_waiters = [False, False]
   \<and> queues two_waiters = [[], []]"
  by (simp add: app_wait_event_def new_client_def ex_apps_def heap_defs dict_getitem_def
        getitem_def one_waiter_def two_waiters_def on_app_message_string_value
        running_message_def Let_def)

subsection \<open>C2: the three outcomes of \<^verbatim>\<open>wait_app_state\<close>\<close>

text \<open>
  C2: in a call \<^verbatim>\<open>wait_app_state(name, state, timeout)\<close> that has registered its wait, if
  the event is not set when the wait ends the call raises \<^verbatim>\<open>TimeoutError\<close>, whose
  message is the timeout template filled with the state and the name; if the event is
  set and the value taken from the queue differs from the state it raises
  \<^verbatim>\<open>ApplicationError\<close>, whose message is filled with the name, the state and that value;
  if the value equals the state the call returns.
\<close>

theorem wait_app_state_outcome:
  assumes "app_wait_event c nm st True = Inr ((wait_ev, resolved), c1)"
      and "c2 = foldl on_app_message c1 feed"
  shows "(\<not> events c2 ! wait_ev \<longrightarrow>
            snd (wait_app_state c nm st feed)
              = Inl (TimeoutError (Format timeout_template [st, nm])))
       \<and> (events c2 ! wait_ev \<longrightarrow>
            (\<forall>current_state rest. queues c2 ! resolved = current_state # rest \<longrightarrow>
               snd (wait_app_state c nm st feed)
                 = (if current_state = st then Inr ()
                    else Inl (ApplicationError
                           (Format application_error_template [nm, st, current_state])))))"
  using assms by (simp add: wait_app_state_def Let_def)

text \<open>
  Witness for C2: waiting for \<^verbatim>\<open>app1\<close> (stopped) with only a string-valued message in
  the feed times out; waiting for \<^verbatim>\<open>app2\<close> (in error) raises \<^verbatim>\<open>ApplicationError\<close>;
  waiting for \<^verbatim>\<open>app3\<close> (running) returns.
\<close>

theorem wait_app_state_outcome_witness:
  "snd (wait_app_state (new_client ex_apps) (PStr ''app1'') (PStr ''Running'')
          [Some running_message])
     = Inl (TimeoutError (Format timeout_template [PStr ''Running'', PStr ''app1'']))
   \<and> snd (wait_app_state (new_client ex_apps) (PStr ''app2'') (PStr ''Running'') [])
     = Inl (ApplicationError (Format application_error_template
              [PStr ''app2'', PStr ''Running'', PStr ''Error'']))
   \<and> snd (wait_app_state (new_client ex_apps) (PStr ''app3'') (PStr ''Running'') [])
     = Inr ()"
proof -
  have r1: "app_wait_event (new_client ex_apps) (PStr ''app1'') (PStr ''Running'') True
              = Inr ((0, 0), one_waiter)"
    by (simp add: app_wait_event_def new_client_def ex_apps_def heap_defs dict_getitem_def
          getitem_def one_waiter_def Let_def)
  have f1: "one_waiter = foldl on_app_message one_waiter [Some running_message]"
    by (simp add: on_app_message_string_value running_message_def)
  have r2: "app_wait_event (new_client ex_apps) (PStr ''app2'') (PStr ''Running'') True
              = Inr ((0, 0), (new_client ex_apps)\<lparr>queues := [[PStr ''Error'']], events := [True]\<rparr>)"
    by (simp add: app_wait_event_def new_client_def ex_apps_def heap_defs dict_getitem_def
          getitem_def Let_def)
  have r3: "app_wait_event (new_client ex_apps) (PStr ''app3'') (PStr ''Running'') True
              = Inr ((0, 0), (new_client ex_apps)\<lparr>queues := [[PStr ''Running'']], events := [True]\<rparr>)"
    by (simp add: app_wait_event_def new_client_def ex_apps_def heap_defs dict_getitem_def
          getitem_def Let_def)
  have f: "\<And>c. c = foldl on_app_message c []"
    by simp
  show ?thesis
    using wait_app_state_outcome [OF r1 f1] wait_app_state_outcome [OF r2 f]
      wait_app_state_outcome [OF r3 f]
    by (simp add: one_waiter_def)
qed

subsection \<open>C3: registration of a wait\<close>



subsection \<open>C4: the three machine signals\<close>

text \<open>
  C4: for a machine-state message with state \<open>s\<close> that the handler processes (the
  caller's callback, if there is one, returns), the ready event is set exactly when
  \<open>s\<close> is \<^verbatim>\<open>"Ready"\<close>, the not-ready event exactly when it is not, and the closing event
  exactly when \<open>s\<close> is \<^verbatim>\<open>"Closing"\<close> or \<^verbatim>\<open>"Ready"\<close>, whatever the events were before.
\<close>

theorem on_status_message_signals:
  assumes "message ''state'' = Some s"
      and "case machine_state_callback of None \<Rightarrow> True | Some f \<Rightarrow> f message"
  shows "wait_ready_event (on_status_message machine_state_callback c (Some message))
           = (s = PStr ''Ready'')
       \<and> wait_not_ready_event (on_status_message machine_state_callback c (Some message))
           = (s \<noteq> PStr ''Ready'')
       \<and> wait_closing_event (on_status_message machine_state_callback c (Some message))
           = (s = PStr ''Closing'' \<or> s = PStr ''Ready'')"
  using assms by (auto simp: on_status_message_def getitem_def Let_def split: option.splits)

text \<open>
  Witness for C4: \<^verbatim>\<open>{"state": "Ready"}\<close> sets ready and closing and leaves not-ready
  unset; \<^verbatim>\<open>{"state": "Running"}\<close> after it clears ready and closing and sets not-ready.
\<close>

theorem on_status_message_signals_witness:
  "wait_ready_event
     (on_status_message None (new_client ex_apps) (Some [''state'' \<mapsto> PStr ''Ready'']))
   \<and> \<not> wait_not_ready_event
     (on_status_message None (new_client ex_apps) (Some [''state'' \<mapsto> PStr ''Ready'']))
   \<and> wait_closing_event
     (on_status_message None (new_client ex_apps) (Some [''state'' \<mapsto> PStr ''Ready'']))
   \<and> \<not> wait_ready_event
     (on_status_message None
        (on_status_message None (new_client ex_apps) (Some [''state'' \<mapsto> PStr ''Ready'']))
        (Some [''state'' \<mapsto> PStr ''Running'']))
   \<and> wait_not_ready_event
     (on_status_message None
        (on_status_message None (new_client ex_apps) (Some [''state'' \<mapsto> PStr ''Ready'']))
        (Some [''state'' \<mapsto> PStr ''Running'']))
   \<and> \<not> wait_closing_event
     (on_status_message None
        (on_status_message None (new_client ex_apps) (Some [''state'' \<mapsto> PStr ''Ready'']))
        (Some [''state'' \<mapsto> PStr ''Running'']))"
proof -
  have m1: "[''state'' \<mapsto> PStr ''Ready''] ''state'' = Some (PStr ''Ready'')"
    by simp
  have m2: "[''state'' \<mapsto> PStr ''Running''] ''state'' = Some (PStr ''Running'')"
    by simp
  have cb1: "case None :: ((string \<rightharpoonup> pyval) \<Rightarrow> bool) option of
               None \<Rightarrow> True | Some f \<Rightarrow> f [''state'' \<mapsto> PStr ''Ready'']"
    by simp
  have cb2: "case None :: ((string \<rightharpoonup> pyval) \<Rightarrow> bool) option of
               None \<Rightarrow> True | Some f \<Rightarrow> f [''state'' \<mapsto> PStr ''Running'']"
    by simp
  show ?thesis
    using on_status_message_signals
        [of "[''state'' \<mapsto> PStr ''Ready'']" "PStr ''Ready''" None "new_client ex_apps",
         OF m1 cb1]
      on_status_message_signals
        [of "[''state'' \<mapsto> PStr ''Running'']" "PStr ''Running''" None
            "on_status_message None (new_client ex_apps) (Some [''state'' \<mapsto> PStr ''Ready''])",
         OF m2 cb2]
    by simp
qed

subsection \<open>C5: the body of a POST action\<close>

text \<open>
  C5: \<^verbatim>\<open>post_func\<close> issues one request, whose body is the static fields of the action
  overridden by the caller's keywords: a key of the keywords has the caller's value,
  any other key the static value. The static fields are those of the field list that
  carry a value: a name is absent when no field of that name carries one, and a
  static value is the value of a field of that name.
\<close>

theorem post_func_body:
  "fst (post_func server a kwargs sent) =
      sent @ [\<lparr>req_method = ''POST'', req_url = action_href a,
                req_headers = [(''Content-type'', action_type a)],
                req_json = Some (static_fields (action_fields a) ++ kwargs)\<rparr>]
    \<and> (\<forall>k. (static_fields (action_fields a) ++ kwargs) k =
             (case kwargs k of Some v \<Rightarrow> Some v
                             | None \<Rightarrow> static_fields (action_fields a) k))
    \<and> (\<forall>k. (static_fields (action_fields a) k = None) =
             (\<forall>f\<in>set (action_fields a). field_name f = k \<longrightarrow> field_value f = None))
    \<and> (\<forall>k v. static_fields (action_fields a) k = Some v \<longrightarrow>
             (\<exists>f\<in>set (action_fields a). field_name f = k \<and> field_value f = Some v))"
proof (intro conjI allI impI)
  show "fst (post_func server a kwargs sent) =
      sent @ [\<lparr>req_method = ''POST'', req_url = action_href a,
                req_headers = [(''Content-type'', action_type a)],
                req_json = Some (static_fields (action_fields a) ++ kwargs)\<rparr>]"
    by (simp add: post_func_def send_def Let_def split: sum.splits)
next
  fix k
  show "(static_fields (action_fields a) ++ kwargs) k =
          (case kwargs k of Some v \<Rightarrow> Some v | None \<Rightarrow> static_fields (action_fields a) k)"
    by (simp add: map_add_def split: option.splits)
next
  fix k
  show "(static_fields (action_fields a) k = None) =
          (\<forall>f\<in>set (action_fields a). field_name f = k \<longrightarrow> field_value f = None)"
    by (rule static_fields_None)
next
  fix k v
  assume "static_fields (action_fields a) k = Some v"
  then show "\<exists>f\<in>set (action_fields a). field_name f = k \<and> field_value f = Some v"
    by (rule static_fields_Some)
qed

text \<open>
  Witness for C5: the static field \<^verbatim>\<open>mode = "auto"\<close> invoked with \<^verbatim>\<open>mode="manual"\<close> sends
  the body \<^verbatim>\<open>{"mode": "manual"}\<close>; the field \<^verbatim>\<open>speed\<close>, which has no value, is absent.
\<close>

theorem post_func_body_witness:
  "fst (post_func ex_server mode_action [''mode'' \<mapsto> PStr ''manual''] []) =
      [\<lparr>req_method = ''POST'', req_url = ''http://gaia/api/mode'',
        req_headers = [(''Content-type'', ''application/json'')],
        req_json = Some [''mode'' \<mapsto> PStr ''manual'']\<rparr>]
   \<and> static_fields (action_fields mode_action) ''mode'' = Some (PStr ''auto'')
   \<and> static_fields (action_fields mode_action) ''speed'' = None"
  using post_func_body [of ex_server mode_action "[''mode'' \<mapsto> PStr ''manual'']" "[]"]
  by (simp add: mode_action_def static_fields_def)

subsection \<open>C6: a failed fetch during resolution\<close>

text \<open>
  C6 says that an entity whose detail document cannot be fetched or decoded gets an
  empty action map and that the other entities are still resolved. \<^verbatim>\<open>_get_actions\<close>
  catches the exception and prints the entity, then reads \<^verbatim>\<open>entity_details\<close>, which was
  never bound: it raises \<^verbatim>\<open>UnboundLocalError\<close>, and so does the loop of the constructor,
  before the next entity (whose document is there) is looked at.
\<close>

theorem failed_fetch_aborts_resolution:
  "get_actions ex_fetch (ent ''a'' PNone ''down'') = Inl UnboundLocalError
   \<and> init_applications ex_fetch [ent ''a'' PNone ''down'', ent ''b'' PNone ''h2''] Map.empty
       = Inl UnboundLocalError"
  by (simp add: get_actions_def ex_fetch_def ent_def register_entity_def getitem_def
        dict_contains_def)

subsection \<open>C7: registration under the canonical name and the alias\<close>

text \<open>
  C7 as stated says that an entity whose name is already registered and that has a
  non-empty alias is registered under the alias with the action set of the canonical
  entry, and that the canonical entry is not overwritten. Three entities named
  \<^verbatim>\<open>a\<close>, with aliases \<^verbatim>\<open>""\<close>, \<^verbatim>\<open>"b"\<close> and \<^verbatim>\<open>"a"\<close> and detail documents with the actions
  \<^verbatim>\<open>x\<close>, \<^verbatim>\<open>y\<close> and \<^verbatim>\<open>z\<close>: the key \<^verbatim>\<open>b\<close> gets the second entity's own actions (\<^verbatim>\<open>y\<close>, not the
  \<^verbatim>\<open>x\<close> of the canonical entry), and the third entity, whose alias is the canonical
  name, replaces the canonical entry.
\<close>

theorem alias_entry_counterexample:
  "init_applications ex_fetch
      [ent ''a'' (PStr []) ''h1'', ent ''a'' (PStr ''b'') ''h2'', ent ''a'' (PStr ''a'') ''h3'']
      Map.empty
    = Inr [PStr ''a'' \<mapsto> \<lparr>actions = [''x'' \<mapsto> Get_func (act ''x'')],
                          properties = entity_properties (ent ''a'' (PStr []) ''h1'')\<rparr>,
           PStr ''b'' \<mapsto> \<lparr>actions = [''y'' \<mapsto> Get_func (act ''y'')],
                          properties = entity_properties (ent ''a'' (PStr ''b'') ''h2'')\<rparr>,
           PStr ''a'' \<mapsto> \<lparr>actions = [''z'' \<mapsto> Get_func (act ''z'')],
                          properties = entity_properties (ent ''a'' (PStr ''a'') ''h3'')\<rparr>]
   \<and> [''y'' \<mapsto> Get_func (act ''y'')] ''x'' \<noteq> [''x'' \<mapsto> Get_func (act ''x'')] ''x''"
  by (simp add: get_actions_def ex_fetch_def ent_def register_entity_def getitem_def
        dict_contains_def dict_setitem_def add_actions_def get_fields_def act_def)

text \<open>
  C7 as amended: when the loop body succeeds on an entity with name \<open>nm\<close>, then, if
  \<open>nm\<close> is not a key of the registry, the entity is registered under \<open>nm\<close>; if it is a
  key and the alias is non-empty, the entity is registered under the alias with the
  actions resolved from its own detail document and its own properties, and every
  other key, the canonical one included when it differs from the alias, keeps its
  entry; if it is a key and the alias is empty or null, the registry is unchanged.
\<close>

theorem register_entity_rule:
  assumes "register_entity fetch e apps = Inr apps'"
      and "entity_properties e ''name'' = Some nm"
  shows "(apps nm = None \<longrightarrow>
            (\<exists>acts. get_actions fetch e = Inr acts
               \<and> apps' = apps(nm \<mapsto> \<lparr>actions = acts, properties = entity_properties e\<rparr>)))
       \<and> (apps nm \<noteq> None \<longrightarrow>
            (\<exists>alias. entity_properties e ''alias'' = Some alias
               \<and> (truthy alias \<longrightarrow>
                    (\<exists>acts. get_actions fetch e = Inr acts
                       \<and> apps' = apps(alias \<mapsto>
                            \<lparr>actions = acts, properties = entity_properties e\<rparr>)))
               \<and> (\<not> truthy alias \<longrightarrow> apps' = apps)))"
  using assms
  by (auto simp: register_entity_def getitem_def dict_contains_def dict_setitem_def
           split: option.splits sum.splits if_splits bool.splits)

text \<open>
  Witness for the amended C7, on the registry that holds \<^verbatim>\<open>a\<close>: the entity \<^verbatim>\<open>a\<close> with
  alias \<^verbatim>\<open>b\<close> adds the key \<^verbatim>\<open>b\<close> with its own action \<^verbatim>\<open>y\<close>; the entity \<^verbatim>\<open>a\<close> with a null
  alias changes nothing; on the empty registry the entity \<^verbatim>\<open>a\<close> is registered as \<^verbatim>\<open>a\<close>.
\<close>

theorem register_entity_rule_witness:
  "register_entity ex_fetch (ent ''a'' (PStr ''b'') ''h2'') canonical_only
     = Inr (canonical_only(PStr ''b'' \<mapsto>
              \<lparr>actions = [''y'' \<mapsto> Get_func (act ''y'')],
               properties = entity_properties (ent ''a'' (PStr ''b'') ''h2'')\<rparr>))
   \<and> canonical_only (PStr ''a'') \<noteq> None
   \<and> register_entity ex_fetch (ent ''a'' PNone ''h2'') canonical_only = Inr canonical_only
   \<and> register_entity ex_fetch (ent ''a'' (PStr []) ''h1'') Map.empty = Inr canonical_only"
proof -
  have n: "entity_properties (ent ''a'' al url) ''name'' = Some (PStr ''a'')" for al url
    by (simp add: ent_def)
  have r1: "register_entity ex_fetch (ent ''a'' (PStr ''b'') ''h2'') canonical_only
     = Inr (canonical_only(PStr ''b'' \<mapsto>
              \<lparr>actions = [''y'' \<mapsto> Get_func (act ''y'')],
               properties = entity_properties (ent ''a'' (PStr ''b'') ''h2'')\<rparr>))"
    by (simp add: get_actions_def ex_fetch_def ent_def register_entity_def getitem_def
          dict_contains_def dict_setitem_def add_actions_def get_fields_def act_def
          canonical_only_def)
  have r2: "register_entity ex_fetch (ent ''a'' PNone ''h2'') canonical_only = Inr canonical_only"
    by (simp add: ent_def register_entity_def getitem_def dict_contains_def
          canonical_only_def)
  have r3: "register_entity ex_fetch (ent ''a'' (PStr []) ''h1'') Map.empty = Inr canonical_only"
    by (simp add: get_actions_def ex_fetch_def ent_def register_entity_def getitem_def
          dict_contains_def dict_setitem_def add_actions_def get_fields_def act_def
          canonical_only_def)
  have k: "canonical_only (PStr ''a'') \<noteq> None"
    by (simp add: canonical_only_def)
  show ?thesis
    using register_entity_rule [OF r1 n] register_entity_rule [OF r2 n]
      register_entity_rule [OF r3 n] r1 r2 r3 k
    by simp
qed

subsection \<open>C8: invoking an action\<close>



subsection \<open>C9: a set event has its resolved state\<close>

text \<open>
  C9: in every run of a constructed client, once the event that a registration
  returned is set, the queue returned with it is not empty, whether the registration
  itself set the event or the listener did later. So a call of \<^verbatim>\<open>wait_app_state\<close> never
  returns through the branch for an empty queue: when it returns, the first element of
  the queue was the state waited for.
\<close>

theorem resolved_state_present_when_event_set:
  assumes "reachable c"
      and "app_wait_event c nm st stop_wait_on_error = Inr ((wait_ev, resolved), c1)"
  shows "(\<forall>c2. rtranclp step c1 c2 \<longrightarrow> events c2 ! wait_ev \<longrightarrow> queues c2 ! resolved \<noteq> [])
       \<and> (stop_wait_on_error \<longrightarrow> snd (wait_app_state c nm st feed) = Inr () \<longrightarrow>
            (\<exists>rest. queues (foldl on_app_message c1 feed) ! resolved = st # rest))"
proof -
  from assms(1) have "pairs_ok c" by (rule reachable_pairs_ok)
  from app_wait_event_keeps [OF this assms(2)]
  have c1: "pairs_ok c1" "wait_ev = length (events c)" "resolved = length (events c)"
    "cell_ok (length (events c)) c1"
    by simp_all
  have present: "queues c2 ! resolved \<noteq> []"
    if run: "rtranclp step c1 c2" and set: "events c2 ! wait_ev" for c2
  proof -
    from steps_keep [OF run c1(1), of "length (events c)"] c1(4)
    have "cell_ok (length (events c)) c2"
      by simp
    with c1 set show ?thesis by (simp add: cell_ok_def)
  qed
  have "\<exists>rest. queues (foldl on_app_message c1 feed) ! resolved = st # rest"
    if b: stop_wait_on_error and ok: "snd (wait_app_state c nm st feed) = Inr ()"
  proof -
    let ?c2 = "foldl on_app_message c1 feed"
    from ok assms(2) b have set: "events ?c2 ! wait_ev"
      by (auto simp: wait_app_state_def Let_def split: if_splits)
    from listen_keeps [OF c1(1), of feed "length (events c)"] c1(4)
    have "cell_ok (length (events c)) ?c2"
      by simp
    with set c1 have "queues ?c2 ! resolved \<noteq> []"
      by (simp add: cell_ok_def)
    then obtain v rest where q: "queues ?c2 ! resolved = v # rest"
      by (cases "queues ?c2 ! resolved") auto
    with ok assms(2) b set have "v = st"
      by (auto simp: wait_app_state_def Let_def split: if_splits)
    with q show ?thesis by simp
  qed
  with present show ?thesis by blast
qed

text \<open>
  Witness for C9: a waiter for \<^verbatim>\<open>app1\<close> is registered on the constructed client; the
  listener then handles a message whose value is the waiter's list of states, which
  sets the event, and the queue holds that value.
\<close>

theorem resolved_state_present_when_event_set_witness:
  "reachable (new_client ex_apps)
   \<and> app_wait_event (new_client ex_apps) (PStr ''app1'') (PStr ''Running'') True
       = Inr ((0, 0), one_waiter)
   \<and> rtranclp step one_waiter (on_app_message one_waiter (Some list_message))
   \<and> events (on_app_message one_waiter (Some list_message)) ! 0
   \<and> queues (on_app_message one_waiter (Some list_message)) ! 0 \<noteq> []"
proof -
  have r: "reachable (new_client ex_apps)"
    by (rule reachable.constructed)
  have w: "app_wait_event (new_client ex_apps) (PStr ''app1'') (PStr ''Running'') True
             = Inr ((0, 0), one_waiter)"
    by (simp add: app_wait_event_def new_client_def ex_apps_def heap_defs dict_getitem_def
          getitem_def one_waiter_def Let_def)
  have s: "rtranclp step one_waiter (on_app_message one_waiter (Some list_message))"
    by (rule r_into_rtranclp) (rule step.app_message)
  have e: "events (on_app_message one_waiter (Some list_message)) ! 0"
    by (simp add: on_app_message_def one_waiter_def list_message_def getitem_def
          new_client_def heap_defs)
  show ?thesis
    using resolved_state_present_when_event_set [OF r w, of "[]"] r w s e
    by blast
qed

subsection \<open>C10: a message removes the matched entries and no other\<close>

text \<open>
  C10 says that a message removes from the pending list exactly the entries it
  matches (same name, value among the acceptable states) and leaves every other entry
  pending. With a waiter for \<^verbatim>\<open>("app1", "Running")\<close> and one for \<^verbatim>\<open>("app3", "Stopped")\<close>
  pending, the message \<^verbatim>\<open>{"name": "app1", "value": "Running"}\<close> removes neither: the entry it
  matches stays in the list, for the comparison of line 80 is between the list
  \<^verbatim>\<open>["Running"]\<close> and the string.
\<close>

theorem matched_entry_not_removed:
  "(case app_wait_event (new_client ex_apps) (PStr ''app1'') (PStr ''Running'') False of
      Inl e \<Rightarrow> Inl e
    | Inr (h, c) \<Rightarrow> app_wait_event c (PStr ''app3'') (PStr ''Stopped'') False)
     = Inr ((1, 1), frame_waiters)
   \<and> map name (app_wait_list frame_waiters) = [PStr ''app1'', PStr ''app3'']
   \<and> map (\<lambda>w. PStr ''Running'' \<in> set (state w)) (app_wait_list frame_waiters)
       = [True, False]
   \<and> running_message ''name'' = Some (PStr ''app1'')
   \<and> running_message ''value'' = Some (PStr ''Running'')
   \<and> app_wait_list (on_app_message frame_waiters (Some running_message))
     = [\<lparr>name = PStr ''app1'', state = [PStr ''Running''],
          wait_event = 0, resolved_state = 0\<rparr>,
        \<lparr>name = PStr ''app3'', state = [PStr ''Stopped''],
          wait_event = 1, resolved_state = 1\<rparr>]
   \<and> events (on_app_message frame_waiters (Some running_message)) = [False, False]
   \<and> queues (on_app_message frame_waiters (Some running_message)) = [[], []]"
  by (simp add: app_wait_event_def new_client_def ex_apps_def heap_defs dict_getitem_def
        getitem_def frame_waiters_def on_app_message_def
        running_message_def Let_def)

end
